theory Spec2Isabelle
  imports Complex_Main "HOL-Library.AList"
begin

section \<open>Python strings and word characters\<close>

text \<open>
  A Python \<open>str\<close> is a sequence of Unicode code points. A code point is modelled as a
  natural number and a string as a list of code points; \<open>py\<close> turns an ASCII literal
  into such a string.
\<close>

type_synonym codepoint = nat
type_synonym pystr = "codepoint list"

definition py :: "string \<Rightarrow> pystr" where
  "py s = map of_char s"

text \<open>
  Two things are decided by the Python library and its version, not by the repository,
  and are parameters of the model: which non-ASCII code points the Unicode database
  classifies as alphanumeric (\<open>unicode_word\<close>), and which group names other than \<open>0\<close> a
  replacement template may use for the number 0, such as \<open>00\<close> or \<open>+0\<close>
  (\<open>names_group0\<close>).
\<close>

record pylib =
  unicode_word :: "codepoint \<Rightarrow> bool"
  names_group0 :: "pystr \<Rightarrow> bool"

text \<open>
  A library that takes no non-ASCII code point for a word character and no group name
  but \<open>0\<close> for the number 0.
\<close>

definition ascii_lib :: pylib where
  "ascii_lib = \<lparr> unicode_word = (\<lambda>c. False), names_group0 = (\<lambda>n. False) \<rparr>"

text \<open>
  The regular expression class \<open>\w\<close> of a \<open>str\<close> pattern: the ASCII letters and digits,
  the underscore, and every non-ASCII code point that the Unicode database classifies as
  alphanumeric.
\<close>

definition is_word :: "pylib \<Rightarrow> codepoint \<Rightarrow> bool" where
  "is_word lib c =
     (if c < 128
      then (48 \<le> c \<and> c \<le> 57) \<or> (65 \<le> c \<and> c \<le> 90) \<or> (97 \<le> c \<and> c \<le> 122) \<or> c = 95
      else unicode_word lib c)"

section \<open>The substitution \<open>re.sub(r'\b' + re.escape(m) + r'\b', k, code)\<close>\<close>

text \<open>
  The scan runs over the rest \<open>s\<close> of the text; \<open>pw\<close> tells whether the character before
  the current position is a word character (false at the start of the text).
  \<open>\b\<close> holds at a position when exactly one of the two neighbours is a word character.
\<close>

definition next_is_word :: "('c \<Rightarrow> bool) \<Rightarrow> 'c list \<Rightarrow> bool" where
  "next_is_word isw s = (case s of [] \<Rightarrow> False | c # _ \<Rightarrow> isw c)"

definition boundary :: "('c \<Rightarrow> bool) \<Rightarrow> bool \<Rightarrow> 'c list \<Rightarrow> bool" where
  "boundary isw pw s = (pw \<noteq> next_is_word isw s)"

text \<open>The pattern \<open>\b m \b\<close> matches at the current position.\<close>

definition match_here :: "('c \<Rightarrow> bool) \<Rightarrow> 'c list \<Rightarrow> bool \<Rightarrow> 'c list \<Rightarrow> bool" where
  "match_here isw m pw s =
     (boundary isw pw s \<and> take (length m) s = m \<and>
      boundary isw (if m = [] then pw else isw (last m)) (drop (length m) s))"

text \<open>
  Leftmost, non-overlapping replacement: at a match the replacement is emitted and the
  scan goes on behind the match; elsewhere the character is copied. An empty \<open>m\<close>
  matches the empty string at every word boundary, and the scan then copies one
  character before it searches again.
\<close>

function sub_from :: "('c \<Rightarrow> bool) \<Rightarrow> 'c list \<Rightarrow> 'c list \<Rightarrow> bool \<Rightarrow> 'c list \<Rightarrow> 'c list" where
  "sub_from isw m k pw s =
     (if match_here isw m pw s \<and> m \<noteq> []
      then k @ sub_from isw m k (isw (last m)) (drop (length m) s)
      else (if match_here isw m pw s then k else []) @
           (case s of [] \<Rightarrow> [] | c # cs \<Rightarrow> c # sub_from isw m k (isw c) cs))"
  by pat_completeness auto
termination
proof (relation "measure (\<lambda>(isw, m, k, pw, s). length s)")
  show "wf (measure (\<lambda>(isw, m, k, pw, s). length s))" by simp
next
  fix isw :: "'c \<Rightarrow> bool" and m k :: "'c list" and pw :: bool and s :: "'c list"
  assume a: "match_here isw m pw s \<and> m \<noteq> []"
  then have "take (length m) s = m" by (simp add: match_here_def)
  then have "length (take (length m) s) = length m" by simp
  then have "length m \<le> length s" by simp
  with a show "((isw, m, k, isw (last m), drop (length m) s), (isw, m, k, pw, s))
      \<in> measure (\<lambda>(isw, m, k, pw, s). length s)"
    by (cases m) auto
next
  fix isw :: "'c \<Rightarrow> bool" and m k :: "'c list" and pw :: bool and s :: "'c list"
    and c :: 'c and cs :: "'c list"
  assume "s = c # cs"
  then show "((isw, m, k, isw c, cs), (isw, m, k, pw, s))
      \<in> measure (\<lambda>(isw, m, k, pw, s). length s)"
    by simp
qed

declare sub_from.simps [simp del]

subsection \<open>The replacement template\<close>

text \<open>
  \<open>re.sub\<close> takes a replacement without a backslash (code point 92) as it is. Any
  other replacement is a template that the library parses first, whether or not the
  pattern matches anywhere, and a template it refuses makes the call raise. This is
  \<open>parse_template\<close> of the library, Python 3.7 and later, for a pattern without groups.

  The template is read as tokens: a backslash forms one token with the character behind
  it, and a backslash at the end is refused.
\<close>

datatype token = Ch codepoint | Esc codepoint

fun tokens :: "pystr \<Rightarrow> token list option" where
  "tokens [] = Some []"
| "tokens [c] = (if c = 92 then None else Some [Ch c])"
| "tokens (c # e # cs) =
     (if c = 92 then map_option ((#) (Esc e)) (tokens cs)
      else map_option ((#) (Ch c)) (tokens (e # cs)))"

definition token_text :: "token \<Rightarrow> pystr" where
  "token_text t = (case t of Ch c \<Rightarrow> [c] | Esc e \<Rightarrow> [92, e])"

definition octal :: "codepoint \<Rightarrow> bool" where
  "octal c = (48 \<le> c \<and> c \<le> 55)"

definition digit :: "codepoint \<Rightarrow> bool" where
  "digit c = (48 \<le> c \<and> c \<le> 57)"

definition ascii_letter :: "codepoint \<Rightarrow> bool" where
  "ascii_letter c = ((65 \<le> c \<and> c \<le> 90) \<or> (97 \<le> c \<and> c \<le> 122))"

text \<open>The value of the next token when it is an octal, or a decimal, digit.\<close>

fun next_octal :: "token list \<Rightarrow> nat option" where
  "next_octal (Ch d # ts) = (if octal d then Some (d - 48) else None)"
| "next_octal ts = None"

fun next_digit :: "token list \<Rightarrow> nat option" where
  "next_digit (Ch d # ts) = (if digit d then Some (d - 48) else None)"
| "next_digit ts = None"

text \<open>The escapes \<open>\a \b \f \n \r \t \v\<close> and the doubled backslash.\<close>

definition escape_char :: "codepoint \<Rightarrow> codepoint option" where
  "escape_char e =
     (if e = 97 then Some 7 else if e = 98 then Some 8 else if e = 102 then Some 12
      else if e = 110 then Some 10 else if e = 114 then Some 13 else if e = 116 then Some 9
      else if e = 118 then Some 11 else if e = 92 then Some 92 else None)"

text \<open>
  A parsed template is a list of literal characters and references to the whole
  match. After \<open>\g\<close> (103) comes \<open><\<close> (60), a name and \<open>>\<close> (62); the pattern has no
  groups, so only a name for the number 0 is accepted. \<open>\0\<close> (48) takes up to two more
  octal digits. Another digit starts a three-digit octal escape of value at most 255,
  or else a reference to a group that does not exist. An unknown escape with an ASCII
  letter is refused; any other escaped character stays with its backslash.
\<close>

datatype part = Lit codepoint | Whole_match

function parse_tokens :: "(pystr \<Rightarrow> bool) \<Rightarrow> token list \<Rightarrow> part list option" where
  "parse_tokens g0 [] = Some []"
| "parse_tokens g0 (Ch c # ts) = map_option ((#) (Lit c)) (parse_tokens g0 ts)"
| "parse_tokens g0 (Esc e # ts) =
     (if e = 103 then
        (if take 1 ts \<noteq> [Ch 60] then None
         else if dropWhile (\<lambda>t. t \<noteq> Ch 62) (tl ts) = [] \<or>
                 takeWhile (\<lambda>t. t \<noteq> Ch 62) (tl ts) = [] then None
         else if concat (map token_text (takeWhile (\<lambda>t. t \<noteq> Ch 62) (tl ts))) = [48] \<or>
                 g0 (concat (map token_text (takeWhile (\<lambda>t. t \<noteq> Ch 62) (tl ts))))
         then map_option ((#) Whole_match)
                (parse_tokens g0 (tl (dropWhile (\<lambda>t. t \<noteq> Ch 62) (tl ts))))
         else None)
      else if e = 48 then
        (case next_octal ts of
           None \<Rightarrow> map_option ((#) (Lit 0)) (parse_tokens g0 ts)
         | Some a \<Rightarrow>
             (case next_octal (tl ts) of
                None \<Rightarrow> map_option ((#) (Lit a)) (parse_tokens g0 (tl ts))
              | Some b \<Rightarrow> map_option ((#) (Lit (8 * a + b))) (parse_tokens g0 (tl (tl ts)))))
      else if digit e then
        (case next_digit ts of
           None \<Rightarrow> None
         | Some d \<Rightarrow>
             (case next_octal (tl ts) of
                None \<Rightarrow> None
              | Some b \<Rightarrow>
                  if octal e \<and> d < 8 \<and> 64 * (e - 48) + 8 * d + b \<le> 255
                  then map_option ((#) (Lit (64 * (e - 48) + 8 * d + b)))
                         (parse_tokens g0 (tl (tl ts)))
                  else None))
      else
        (case escape_char e of
           Some c \<Rightarrow> map_option ((#) (Lit c)) (parse_tokens g0 ts)
         | None \<Rightarrow>
             if ascii_letter e then None
             else map_option (\<lambda>ps. Lit 92 # Lit e # ps) (parse_tokens g0 ts)))"
  by pat_completeness auto
termination
proof (relation "measure (\<lambda>(g0, ts). length ts)")
  show "wf (measure (\<lambda>(g0, ts). length ts))" by simp
next
  fix g0 :: "pystr \<Rightarrow> bool" and e :: codepoint and ts :: "token list"
  have "length (dropWhile (\<lambda>t. t \<noteq> Ch 62) (tl ts)) \<le> length (tl ts)"
    by (rule length_dropWhile_le)
  then show "((g0, tl (dropWhile (\<lambda>t. t \<noteq> Ch 62) (tl ts))), (g0, Esc e # ts))
      \<in> measure (\<lambda>(g0, ts). length ts)"
    by simp
qed simp_all

definition parse_template :: "(pystr \<Rightarrow> bool) \<Rightarrow> pystr \<Rightarrow> part list option" where
  "parse_template g0 k = (case tokens k of None \<Rightarrow> None | Some ts \<Rightarrow> parse_tokens g0 ts)"

text \<open>The text that a parsed template stands for at a match \<open>m\<close>.\<close>

definition expand_template :: "part list \<Rightarrow> pystr \<Rightarrow> pystr" where
  "expand_template parts m = concat (map (\<lambda>p. case p of Lit c \<Rightarrow> [c] | Whole_match \<Rightarrow> m) parts)"

text \<open>
  What replaces a match of the literal \<open>m\<close> when the replacement is \<open>k\<close>; \<open>None\<close> when
  the library refuses \<open>k\<close> as a template.
\<close>

definition replacement :: "pylib \<Rightarrow> pystr \<Rightarrow> pystr \<Rightarrow> pystr option" where
  "replacement lib m k =
     (if 92 \<in> set k
      then map_option (\<lambda>parts. expand_template parts m) (parse_template (names_group0 lib) k)
      else Some k)"


text \<open>
  The call \<open>re.sub(r'\b' + re.escape(m) + r'\b', k, code)\<close>: \<open>None\<close> when it raises
  (\<open>re.error\<close>, or \<open>IndexError\<close> for an unknown group name), and the new text otherwise.
\<close>

definition re_sub_word :: "pylib \<Rightarrow> pystr \<Rightarrow> pystr \<Rightarrow> pystr \<Rightarrow> pystr option" where
  "re_sub_word lib m k code =
     (case replacement lib m k of
        None \<Rightarrow> None
      | Some r \<Rightarrow> Some (sub_from (is_word lib) m r False code))"

section \<open>The interpreter state\<close>

text \<open>
  \<open>keyword_mappings\<close> is a dictionary from the correct keyword to a list object.
  The dictionary keeps insertion order, so it is an association list with distinct
  keys. Lists are mutable objects that callers may share, so the dictionary holds
  references and the lists live in a store.
\<close>

type_synonym ref = nat

record interp =
  keyword_mappings :: "(pystr \<times> ref) list"
  store :: "ref \<Rightarrow> pystr list"
  fresh :: ref

text \<open>The dictionary's items, in iteration order, with the current contents of the lists.\<close>

definition items :: "interp \<Rightarrow> (pystr \<times> pystr list) list" where
  "items st = map (\<lambda>(k, r). (k, store st r)) (keyword_mappings st)"

text \<open>The table that \<open>__init__\<close> builds.\<close>

definition seed :: "(string \<times> string list) list" where
  "seed =
    [(''def'', [''def'', ''deff'', ''define'', ''defin'']),
     (''if'', [''if'', ''iff'', ''iif'']),
     (''elif'', [''elif'', ''elsif'', ''elseif'', ''else_if'']),
     (''else'', [''else'', ''els'', ''elze'']),
     (''for'', [''for'', ''fore'', ''four'', ''fr'']),
     (''while'', [''while'', ''wile'', ''whyle'', ''whil'']),
     (''in'', [''in'', ''inn'', ''iin'']),
     (''return'', [''return'', ''retrun'', ''retrn'', ''ret'']),
     (''import'', [''import'', ''imprt'', ''imort'', ''importt'']),
     (''from'', [''from'', ''frm'', ''fom'']),
     (''as'', [''as'', ''az'', ''ass'']),
     (''class'', [''class'', ''clas'', ''clss'', ''klass'']),
     (''try'', [''try'', ''tri'', ''tyr'']),
     (''except'', [''except'', ''exept'', ''excpt'', ''catch'']),
     (''finally'', [''finally'', ''finaly'', ''finale'']),
     (''with'', [''with'', ''wth'', ''wit'']),
     (''and'', [''and'', ''andd'', ''adn'']),
     (''or'', [''or'', ''orr'']),
     (''not'', [''not'', ''nott'', ''no'']),
     (''is'', [''is'', ''iz'', ''iss'']),
     (''True'', [''True'', ''true'', ''TRUE'', ''tru'']),
     (''False'', [''False'', ''false'', ''FALSE'', ''fals'']),
     (''None'', [''None'', ''none'', ''NONE'', ''null'', ''nil'']),
     (''print'', [''print'', ''prin'', ''prnt'', ''pritn''])]"

definition seed_items :: "(pystr \<times> pystr list) list" where
  "seed_items = map (\<lambda>(k, ms). (py k, map py ms)) seed"

text \<open>Every list of the seed table is an object of its own: entry \<open>i\<close> lives at reference \<open>i\<close>.\<close>

definition init :: interp where
  "init = \<lparr> keyword_mappings = zip (map fst seed_items) [0 ..< length seed_items],
            store = (\<lambda>r. if r < length seed_items then snd (seed_items ! r) else []),
            fresh = length seed_items \<rparr>"

section \<open>\<open>fix_spelling\<close>\<close>

text \<open>
  \<open>fix_spelling\<close> returns the corrected text, or \<open>None\<close> when one of its \<open>re.sub\<close> calls
  raises. The inner loop: the misspellings of one keyword, in list order.
\<close>

fun fix_misspellings :: "pylib \<Rightarrow> pystr \<Rightarrow> pystr list \<Rightarrow> pystr \<Rightarrow> pystr option" where
  "fix_misspellings lib k [] code = Some code"
| "fix_misspellings lib k (m # ms) code =
     (if m = k then fix_misspellings lib k ms code
      else case re_sub_word lib m k code of
             None \<Rightarrow> None
           | Some code' \<Rightarrow> fix_misspellings lib k ms code')"

text \<open>The outer loop: the items of the dictionary, in insertion order.\<close>

fun fix_items :: "pylib \<Rightarrow> (pystr \<times> pystr list) list \<Rightarrow> pystr \<Rightarrow> pystr option" where
  "fix_items lib [] code = Some code"
| "fix_items lib ((k, ms) # rest) code =
     (case fix_misspellings lib k ms code of
        None \<Rightarrow> None
      | Some code' \<Rightarrow> fix_items lib rest code')"

definition fix_spelling :: "pylib \<Rightarrow> interp \<Rightarrow> pystr \<Rightarrow> pystr option" where
  "fix_spelling lib st code = fix_items lib (items st) code"

section \<open>Operations on the table\<close>

text \<open>
  \<open>add_misspelling\<close> returns its boolean together with the new state. The list of the
  keyword is extended in place, so every holder of the list object sees the new element.
\<close>

definition add_misspelling :: "interp \<Rightarrow> pystr \<Rightarrow> pystr \<Rightarrow> bool \<times> interp" where
  "add_misspelling st correct_keyword misspelling =
     (case map_of (keyword_mappings st) correct_keyword of
        Some r \<Rightarrow>
          (True,
           if misspelling \<notin> set (store st r)
           then st\<lparr>store := (store st)(r := store st r @ [misspelling])\<rparr>
           else st)
      | None \<Rightarrow> (False, st))"

text \<open>
  \<open>add_keyword\<close> receives \<open>None\<close> or a list object of the caller. With \<open>None\<close> a new list
  is made. Otherwise the caller's list is changed in place when the keyword is missing
  from it, and that same object is stored in the dictionary. An assignment to an
  existing key keeps the key's place in the dictionary; a new key goes to the end.
\<close>

definition add_keyword :: "interp \<Rightarrow> pystr \<Rightarrow> ref option \<Rightarrow> interp" where
  "add_keyword st correct_keyword misspellings =
     (case misspellings of
        None \<Rightarrow>
          st\<lparr>keyword_mappings := AList.update correct_keyword (fresh st) (keyword_mappings st),
             store := (store st)(fresh st := [correct_keyword]),
             fresh := Suc (fresh st)\<rparr>
      | Some r \<Rightarrow>
          st\<lparr>keyword_mappings := AList.update correct_keyword r (keyword_mappings st),
             store := (if correct_keyword \<notin> set (store st r)
                       then (store st)(r := correct_keyword # store st r)
                       else store st)\<rparr>)"

definition get_misspellings :: "interp \<Rightarrow> pystr \<Rightarrow> pystr list" where
  "get_misspellings st correct_keyword =
     (case map_of (keyword_mappings st) correct_keyword of
        Some r \<Rightarrow> store st r
      | None \<Rightarrow> [])"

text \<open>The keys of the dictionary, in insertion order.\<close>

definition keys :: "interp \<Rightarrow> pystr list" where
  "keys st = map fst (keyword_mappings st)"

subsection \<open>Sequences of calls\<close>

text \<open>
  A caller of \<open>add_keyword\<close> passes \<open>None\<close>, a list it has just built, or a list object
  that exists already (one it passed before, or one it got from the table).
\<close>

datatype list_arg = No_list | New_list "pystr list" | Same_list ref

datatype call = Add_misspelling pystr pystr | Add_keyword pystr list_arg

definition new_list :: "interp \<Rightarrow> pystr list \<Rightarrow> interp" where
  "new_list st xs = st\<lparr>store := (store st)(fresh st := xs), fresh := Suc (fresh st)\<rparr>"

text \<open>
  A reference to an object that does not exist cannot be passed; the runner leaves the
  state as it is for such a call.
\<close>

fun run_call :: "interp \<Rightarrow> call \<Rightarrow> interp" where
  "run_call st (Add_misspelling k m) = snd (add_misspelling st k m)"
| "run_call st (Add_keyword k No_list) = add_keyword st k None"
| "run_call st (Add_keyword k (New_list xs)) = add_keyword (new_list st xs) k (Some (fresh st))"
| "run_call st (Add_keyword k (Same_list r)) =
     (if r < fresh st then add_keyword st k (Some r) else st)"

definition run :: "interp \<Rightarrow> call list \<Rightarrow> interp" where
  "run st calls = foldl run_call st calls"

text \<open>The lists that the calls build themselves.\<close>

fun new_lists :: "call list \<Rightarrow> pystr list list" where
  "new_lists [] = []"
| "new_lists (Add_keyword k (New_list xs) # cs) = xs # new_lists cs"
| "new_lists (c # cs) = new_lists cs"

section \<open>The fuzzy matcher\<close>

text \<open>
  Modelled from the spec: the edit distance under the similarity score of section 4.3.
  The fuzzy matcher (\<open>find_fuzzy_match\<close> and the \<open>fuzzy_matching\<close> flag of the
  interpreter) is called by the tests and is missing from \<open>src/phyton.py\<close>. The score is
  the character-level Levenshtein distance: the least number of insertions, deletions
  and replacements of one character.
\<close>

fun levenshtein :: "'a list \<Rightarrow> 'a list \<Rightarrow> nat" where
  "levenshtein [] t = length t"
| "levenshtein (x # xs) [] = Suc (length xs)"
| "levenshtein (x # xs) (y # ys) =
     min (min (levenshtein xs (y # ys) + 1) (levenshtein (x # xs) ys + 1))
         (levenshtein xs ys + (if x = y then 0 else 1))"

text \<open>
  Modelled from the spec: the normalised similarity of section 4.3, step 2,
  \<open>1 - distance / max(len_candidate, len_canonical)\<close>, as an exact fraction.
\<close>

definition similarity :: "'a list \<Rightarrow> 'a list \<Rightarrow> rat" where
  "similarity w c = 1 - of_nat (levenshtein w c) / of_nat (max (length w) (length c))"

text \<open>
  Modelled from the spec: the length-adaptive threshold of section 4.3, step 3: 0.90
  for a canonical token of at most 3 characters, 0.80 for 4 to 6 characters, 0.70 from
  7 characters on.
\<close>

definition threshold :: "'a list \<Rightarrow> rat" where
  "threshold c = (if length c \<le> 3 then 9 / 10 else if length c \<le> 6 then 8 / 10 else 7 / 10)"

text \<open>
  Modelled from the spec: the length of the longest canonical token, for the length
  rule of section 4.3, step 1: a candidate of length at most 1, or of more than double
  the length of the longest canonical token, never matches.
\<close>

definition longest :: "'a list list \<Rightarrow> nat" where
  "longest canon = foldr max (map length canon) 0"

text \<open>
  Modelled from the spec: the rejection test of section 4.3, step 1, on the canonical
  tokens \<open>canon\<close> and the candidate \<open>w\<close>.
\<close>

definition length_rejected :: "'a list list \<Rightarrow> 'a list \<Rightarrow> bool" where
  "length_rejected canon w = (length w \<le> 1 \<or> 2 * longest canon < length w)"

text \<open>
  Modelled from the spec: the difference in length between candidate and canonical
  token, the first tie-break of section 4.3, step 4.
\<close>

definition length_gap :: "'a list \<Rightarrow> 'a list \<Rightarrow> nat" where
  "length_gap w c = (if length w \<le> length c then length c - length w else length w - length c)"

text \<open>
  Modelled from the spec: the order of section 4.3, step 4, between a canonical token
  \<open>c\<close> and the best token \<open>b\<close> so far: a higher score wins, and on equal scores the
  smaller difference in length.
\<close>

definition beats :: "'a list \<Rightarrow> 'a list \<Rightarrow> 'a list \<Rightarrow> bool" where
  "beats w c b =
     (similarity w b < similarity w c \<or>
      (similarity w c = similarity w b \<and> length_gap w c < length_gap w b))"

text \<open>
  Modelled from the spec: the choice of section 4.3, step 4, over the tokens that
  cleared their threshold, in table order; an earlier token is kept unless a later one
  beats it.
\<close>

fun best_of :: "'a list \<Rightarrow> 'a list option \<Rightarrow> 'a list list \<Rightarrow> 'a list option" where
  "best_of w best [] = best"
| "best_of w None (c # cs) = best_of w (Some c) cs"
| "best_of w (Some b) (c # cs) = best_of w (Some (if beats w c b then c else b)) cs"

text \<open>
  Modelled from the spec: \<open>find_fuzzy_match\<close> of section 4.3, over the canonical tokens
  in table order. A disabled matcher answers \<open>None\<close> before anything is computed.
\<close>

definition find_fuzzy_match :: "bool \<Rightarrow> 'a list list \<Rightarrow> 'a list \<Rightarrow> 'a list option" where
  "find_fuzzy_match fuzzy_matching canon w =
     (if \<not> fuzzy_matching then None
      else if length_rejected canon w then None
      else best_of w None (filter (\<lambda>c. threshold c \<le> similarity w c) canon))"

section \<open>The option corrector\<close>

text \<open>
  Modelled from the spec: the option vocabulary of sections 4.5 and 6. The argument
  parser is called by the tests and is missing from \<open>src/phyton.py\<close>. The canonical
  long options are \<open>help\<close>, \<open>fuzzy\<close> and \<open>interactive\<close>. Of their alternates the spec
  names one: section 8 has \<open>--halp\<close> corrected to \<open>--help\<close>, and the similarity of
  \<open>halp\<close> and \<open>help\<close>, 3/4, is below the threshold of a token of four characters, so
  \<open>halp\<close> is a registered alternate of \<open>help\<close>.
\<close>

definition option_mappings :: "(pystr \<times> pystr list) list" where
  "option_mappings =
     [(py ''help'', [py ''help'', py ''halp'']),
      (py ''fuzzy'', [py ''fuzzy'']),
      (py ''interactive'', [py ''interactive''])]"

text \<open>
  Modelled from the spec: the shape of a long option in section 4.5, the prefix marker
  \<open>--\<close> followed by word characters. The result is the option's name.
\<close>

definition long_option_name :: "(codepoint \<Rightarrow> bool) \<Rightarrow> pystr \<Rightarrow> pystr option" where
  "long_option_name isw arg =
     (if take 2 arg = py ''--'' \<and> drop 2 arg \<noteq> [] \<and> list_all isw (drop 2 arg)
      then Some (drop 2 arg) else None)"

text \<open>
  Modelled from the spec: the exact table lookup of section 4.5, the canonical name of
  the first entry that lists the name.
\<close>

fun exact_lookup :: "(pystr \<times> pystr list) list \<Rightarrow> pystr \<Rightarrow> pystr option" where
  "exact_lookup [] n = None"
| "exact_lookup ((c, alts) # rest) n = (if n \<in> set alts then Some c else exact_lookup rest n)"

text \<open>
  Modelled from the spec: the match of one option name in section 4.5, the exact lookup
  first and, where no entry lists the name, the fuzzy match against the canonical names.
\<close>

definition find_option_match :: "(pystr \<times> pystr list) list \<Rightarrow> pystr \<Rightarrow> pystr option" where
  "find_option_match tbl n =
     (case exact_lookup tbl n of
        Some c \<Rightarrow> Some c
      | None \<Rightarrow> find_fuzzy_match True (map fst tbl) n)"

text \<open>
  Modelled from the spec: the corrected form of one argument in section 4.5. Only an
  argument shaped like a long option whose name has a match is rewritten.
\<close>

definition correct_option :: "(codepoint \<Rightarrow> bool) \<Rightarrow> (pystr \<times> pystr list) list \<Rightarrow> pystr \<Rightarrow> pystr" where
  "correct_option isw tbl arg =
     (case long_option_name isw arg of
        None \<Rightarrow> arg
      | Some n \<Rightarrow> (case find_option_match tbl n of None \<Rightarrow> arg | Some c \<Rightarrow> py ''--'' @ c))"

text \<open>
  Modelled from the spec: \<open>correct_options\<close> of section 4.5, a loop over the arguments
  that appends each corrected argument to the output and, where it differs from the
  original, the pair (original, canonical) to the report.
\<close>

fun correct_loop ::
  "(codepoint \<Rightarrow> bool) \<Rightarrow> (pystr \<times> pystr list) list \<Rightarrow> pystr list \<Rightarrow>
   pystr list \<Rightarrow> (pystr \<times> pystr) list \<Rightarrow> pystr list \<times> (pystr \<times> pystr) list" where
  "correct_loop isw tbl [] fixed corrections = (fixed, corrections)"
| "correct_loop isw tbl (arg # args) fixed corrections =
     (if correct_option isw tbl arg \<noteq> arg
      then correct_loop isw tbl args (fixed @ [correct_option isw tbl arg])
             (corrections @ [(arg, correct_option isw tbl arg)])
      else correct_loop isw tbl args (fixed @ [arg]) corrections)"

definition correct_options ::
  "pylib \<Rightarrow> (pystr \<times> pystr list) list \<Rightarrow> pystr list \<Rightarrow>
   pystr list \<times> (pystr \<times> pystr) list" where
  "correct_options lib tbl args = correct_loop (is_word lib) tbl args [] []"

section \<open>Notions used in the statements and proofs\<close>

subsection \<open>Whole-word occurrences\<close>

text \<open>
  \<open>prev_is_word\<close> tells whether a text ends in a word character. \<open>edge\<close> is \<open>\b\<close> at
  position \<open>i\<close> of the whole text \<open>s\<close>. \<open>word_at\<close> says that \<open>m\<close> stands at position \<open>i\<close>
  with a word boundary on each side, and \<open>whole_word_in\<close> that it does so somewhere.
\<close>

definition prev_is_word :: "('c \<Rightarrow> bool) \<Rightarrow> 'c list \<Rightarrow> bool" where
  "prev_is_word isw pre = (pre \<noteq> [] \<and> isw (last pre))"






subsection \<open>The words of a text\<close>

text \<open>
  \<open>tokmap isw f s\<close> replaces every maximal run \<open>w\<close> of word characters of \<open>s\<close> by \<open>f w\<close>
  and keeps everything else. A \<open>wordstr\<close> is a non-empty string of word characters.
\<close>

function tokmap :: "('c \<Rightarrow> bool) \<Rightarrow> ('c list \<Rightarrow> 'c list) \<Rightarrow> 'c list \<Rightarrow> 'c list" where
  "tokmap isw f [] = []"
| "tokmap isw f (c # cs) =
     (if isw c then f (c # takeWhile isw cs) @ tokmap isw f (dropWhile isw cs)
      else c # tokmap isw f cs)"
  by pat_completeness auto
termination
  by (relation "measure (\<lambda>(isw, f, s). length s)")
    (auto simp: less_Suc_eq_le length_dropWhile_le)

definition wordstr :: "('c \<Rightarrow> bool) \<Rightarrow> 'c list \<Rightarrow> bool" where
  "wordstr isw w = (w \<noteq> [] \<and> list_all isw w)"

text \<open>
  What the loops of \<open>fix_spelling\<close> do to a text that is one single word: \<open>step\<close> is
  one substitution, \<open>word_misspellings\<close> the inner loop, \<open>word_items\<close> the outer loop.
\<close>

definition step :: "'c list \<Rightarrow> 'c list \<Rightarrow> 'c list \<Rightarrow> 'c list" where
  "step m k w = (if w = m then k else w)"

fun word_misspellings :: "'c list \<Rightarrow> 'c list list \<Rightarrow> 'c list \<Rightarrow> 'c list" where
  "word_misspellings k [] w = w"
| "word_misspellings k (m # ms) w = word_misspellings k ms (if m = k then w else step m k w)"

fun word_items :: "('c list \<times> 'c list list) list \<Rightarrow> 'c list \<Rightarrow> 'c list" where
  "word_items [] w = w"
| "word_items ((k, ms) # rest) w = word_items rest (word_misspellings k ms w)"

text \<open>
  A table is \<open>wordy\<close> when every spelling in it is a \<open>wordstr\<close>. Its
  \<open>proper_alternates\<close> are the spellings that differ from their keyword, the ones
  \<open>fix_spelling\<close> searches for.
\<close>

definition wordy :: "('c \<Rightarrow> bool) \<Rightarrow> ('c list \<times> 'c list list) list \<Rightarrow> bool" where
  "wordy isw tbl = list_all (\<lambda>(k, ms). wordstr isw k \<and> list_all (wordstr isw) ms) tbl"

definition proper_alternates :: "('c list \<times> 'c list list) list \<Rightarrow> 'c list list" where
  "proper_alternates tbl = concat (map (\<lambda>(k, ms). filter (\<lambda>m. m \<noteq> k) ms) tbl)"

subsection \<open>Invariants of the state\<close>

text \<open>
  \<open>refs_ok\<close>: every reference of the dictionary is to an existing list, and that list
  holds the keyword. \<open>lists_distinct\<close>: no list of the store has an element twice.
\<close>

definition refs_ok :: "interp \<Rightarrow> bool" where
  "refs_ok st = (\<forall>(k, r) \<in> set (keyword_mappings st). r < fresh st \<and> k \<in> set (store st r))"

definition lists_distinct :: "interp \<Rightarrow> bool" where
  "lists_distinct st = (\<forall>r. distinct (store st r))"

subsection \<open>The edit distance, row by row\<close>

text \<open>
  \<open>lev_table s t\<close> lists the distance of \<open>s\<close> to every suffix of \<open>t\<close>, longest suffix
  first; \<open>lev_row\<close> computes the list for \<open>x # xs\<close> from the list for \<open>xs\<close>. It is proved
  equal to \<open>levenshtein\<close> below and serves to evaluate it.
\<close>

fun tails :: "'a list \<Rightarrow> 'a list list" where
  "tails [] = [[]]"
| "tails (y # ys) = (y # ys) # tails ys"

fun lev_row :: "'a \<Rightarrow> 'a list \<Rightarrow> nat list \<Rightarrow> nat list" where
  "lev_row x (y # ys) (p # q # ps) =
     (case lev_row x ys (q # ps) of
        [] \<Rightarrow> []
      | r # rs \<Rightarrow> min (min (p + 1) (r + 1)) (q + (if x = y then 0 else 1)) # r # rs)"
| "lev_row x ys ps = map Suc ps"

definition lev_table :: "'a list \<Rightarrow> 'a list \<Rightarrow> nat list" where
  "lev_table s t = foldr (\<lambda>x. lev_row x t) s (map length (tails t))"

section \<open>Properties of the table operations\<close>

lemma known_key_iff: "(k \<in> set (keys st)) = (map_of (keyword_mappings st) k \<noteq> None)"
  by (simp add: keys_def map_of_eq_None_iff)

lemma add_misspelling_result: "fst (add_misspelling st k m) = (k \<in> set (keys st))"
  by (simp add: add_misspelling_def known_key_iff split: option.splits)

lemma add_misspelling_unknown:
  "k \<notin> set (keys st) \<Longrightarrow> add_misspelling st k m = (False, st)"
  by (simp add: add_misspelling_def known_key_iff)

lemma add_misspelling_entry:
  "k \<in> set (keys st) \<Longrightarrow>
   get_misspellings (snd (add_misspelling st k m)) k =
     (if m \<in> set (get_misspellings st k) then get_misspellings st k
      else get_misspellings st k @ [m])"
  by (auto simp: add_misspelling_def get_misspellings_def known_key_iff)

lemma add_misspelling_twice:
  "add_misspelling (snd (add_misspelling st k m)) k m = add_misspelling st k m"
  by (auto simp: add_misspelling_def split: option.splits)

lemma keys_init: "keys init = map fst seed_items"
  by (simp add: keys_def init_def)

lemma init_ref_of_def_keyword: "map_of (keyword_mappings init) (py ''def'') = Some 0"
  by (simp add: init_def seed_items_def seed_def py_def upt_rec [of 0])

lemma init_entry_of_def_keyword:
  "get_misspellings init (py ''def'') = map py [''def'', ''deff'', ''define'', ''defin'']"
  by (simp add: get_misspellings_def init_ref_of_def_keyword) (simp add: init_def seed_items_def seed_def)

text \<open>
  C7. \<open>add_misspelling\<close> returns \<open>True\<close> exactly when the keyword is a key of the table.
  For an unknown keyword it returns \<open>False\<close> and leaves the state as it is; nothing is
  raised. For a known keyword the entry afterwards is the old entry, with the
  misspelling appended when it was not in it. A second, equal call returns the same
  boolean and changes nothing.
\<close>

theorem add_misspelling_contract:
  "fst (add_misspelling st k m) = (k \<in> set (keys st)) \<and>
   (k \<notin> set (keys st) \<longrightarrow> add_misspelling st k m = (False, st)) \<and>
   (k \<in> set (keys st) \<longrightarrow>
      get_misspellings (snd (add_misspelling st k m)) k =
        (if m \<in> set (get_misspellings st k) then get_misspellings st k
         else get_misspellings st k @ [m])) \<and>
   add_misspelling (snd (add_misspelling st k m)) k m = add_misspelling st k m"
  using add_misspelling_result add_misspelling_unknown add_misspelling_entry
    add_misspelling_twice by blast

theorem add_misspelling_contract_witness:
  "py ''def'' \<in> set (keys init) \<and>
   fst (add_misspelling init (py ''def'') (py ''newdef'')) \<and>
   get_misspellings (snd (add_misspelling init (py ''def'') (py ''newdef''))) (py ''def'') =
     map py [''def'', ''deff'', ''define'', ''defin'', ''newdef''] \<and>
   py ''nonexistent'' \<notin> set (keys init) \<and>
   add_misspelling init (py ''nonexistent'') (py ''spelling'') = (False, init)"
proof -
  have k: "py ''def'' \<in> set (keys init)"
    by (simp add: keys_init seed_items_def seed_def)
  have n: "py ''nonexistent'' \<notin> set (keys init)"
    by (simp add: keys_init seed_items_def seed_def py_def)
  have m: "py ''newdef'' \<notin> set (get_misspellings init (py ''def''))"
    unfolding init_entry_of_def_keyword by (simp add: py_def)
  from add_misspelling_contract [of init "py ''def''" "py ''newdef''"] k m
  have "fst (add_misspelling init (py ''def'') (py ''newdef''))"
    and "get_misspellings (snd (add_misspelling init (py ''def'') (py ''newdef''))) (py ''def'') =
      get_misspellings init (py ''def'') @ [py ''newdef'']"
    by simp_all
  moreover from add_misspelling_contract [of init "py ''nonexistent''" "py ''spelling''"] n
  have "add_misspelling init (py ''nonexistent'') (py ''spelling'') = (False, init)"
    by blast
  ultimately show ?thesis
    using k n by (simp add: init_entry_of_def_keyword)
qed

lemma add_keyword_none_entry: "get_misspellings (add_keyword st k None) k = [k]"
  by (simp add: add_keyword_def get_misspellings_def update_conv')

lemma add_keyword_list_ref:
  "map_of (keyword_mappings (add_keyword st k (Some r))) k = Some r"
  by (simp add: add_keyword_def update_conv')

lemma add_keyword_list_entry:
  "get_misspellings (add_keyword st k (Some r)) k =
     (if k \<in> set (store st r) then store st r else k # store st r)"
  by (simp add: add_keyword_def get_misspellings_def update_conv')

lemma add_keyword_keys:
  "keys (add_keyword st k arg) = (if k \<in> set (keys st) then keys st else keys st @ [k])"
  by (cases arg) (simp_all add: add_keyword_def keys_def update_keys image_iff)

text \<open>
  C8. \<open>add_keyword\<close> with \<open>None\<close> makes the entry of the keyword the list that holds the
  keyword alone. \<open>add_keyword\<close> with a list stores that list object under the keyword,
  whatever was stored there before, and the stored entry is the list as passed when it
  holds the keyword, and otherwise the list with the keyword put in front. The key is
  created when it was missing.
\<close>

theorem add_keyword_contract:
  "get_misspellings (add_keyword st k None) k = [k] \<and>
   map_of (keyword_mappings (add_keyword st k (Some r))) k = Some r \<and>
   get_misspellings (add_keyword st k (Some r)) k =
     (if k \<in> set (store st r) then store st r else k # store st r) \<and>
   keys (add_keyword st k arg) = (if k \<in> set (keys st) then keys st else keys st @ [k])"
  by (simp only: add_keyword_none_entry add_keyword_list_ref add_keyword_list_entry
      add_keyword_keys simp_thms)

theorem add_keyword_contract_witness:
  "get_misspellings (add_keyword init (py ''testkw'') None) (py ''testkw'') = [py ''testkw''] \<and>
   get_misspellings
     (add_keyword (new_list init [py ''wrong1'', py ''wrong2'']) (py ''correct'')
        (Some (fresh init))) (py ''correct'') =
     [py ''correct'', py ''wrong1'', py ''wrong2''] \<and>
   py ''def'' \<in> set (keys init) \<and>
   keys (add_keyword init (py ''def'') None) = keys init"
proof -
  have k: "py ''def'' \<in> set (keys init)"
    by (simp add: keys_init seed_items_def seed_def)
  have s: "store (new_list init [py ''wrong1'', py ''wrong2'']) (fresh init) =
      [py ''wrong1'', py ''wrong2'']"
    by (simp add: new_list_def)
  have c: "py ''correct'' \<notin> set [py ''wrong1'', py ''wrong2'']"
    by (simp add: py_def)
  show ?thesis
    using add_keyword_contract [of init "py ''testkw''" 0 None]
      add_keyword_contract [of "new_list init [py ''wrong1'', py ''wrong2'']" "py ''correct''"
        "fresh init" None]
      add_keyword_contract [of init "py ''def''" 0 None] k c
    by (simp add: s)
qed

section \<open>The table invariant\<close>

lemma set_update_subset: "set (AList.update k v al) \<subseteq> insert (k, v) (set al)"
  by (induction al) auto

lemma seed_entries_ok: "list_all (\<lambda>(k, ms). k \<in> set ms \<and> distinct ms) seed_items"
  by (simp add: seed_items_def seed_def py_def)

lemma refs_ok_init: "refs_ok init"
proof -
  have "\<forall>i < length seed_items. fst (seed_items ! i) \<in> set (snd (seed_items ! i))"
    using seed_entries_ok by (auto simp: list_all_length case_prod_beta)
  then show ?thesis
    by (auto simp: refs_ok_def init_def in_set_zip)
qed

lemma lists_distinct_init: "lists_distinct init"
proof -
  have "\<forall>i < length seed_items. distinct (snd (seed_items ! i))"
    using seed_entries_ok by (auto simp: list_all_length case_prod_beta)
  then show ?thesis
    by (simp add: lists_distinct_def init_def)
qed

lemma refs_ok_add_misspelling: "refs_ok st \<Longrightarrow> refs_ok (snd (add_misspelling st k m))"
  by (auto simp: refs_ok_def add_misspelling_def split: option.splits)

lemma lists_distinct_add_misspelling:
  "lists_distinct st \<Longrightarrow> lists_distinct (snd (add_misspelling st k m))"
  by (auto simp: lists_distinct_def add_misspelling_def split: option.splits)

lemma refs_ok_add_keyword_none: "refs_ok st \<Longrightarrow> refs_ok (add_keyword st k None)"
  using set_update_subset [of k "fresh st" "keyword_mappings st"]
  by (fastforce simp: refs_ok_def add_keyword_def)

lemma refs_ok_add_keyword_some:
  "refs_ok st \<Longrightarrow> r < fresh st \<Longrightarrow> refs_ok (add_keyword st k (Some r))"
  using set_update_subset [of k r "keyword_mappings st"]
  by (fastforce simp: refs_ok_def add_keyword_def)

lemma refs_ok_new_list: "refs_ok st \<Longrightarrow> refs_ok (new_list st xs)"
  by (fastforce simp: refs_ok_def new_list_def)

lemma lists_distinct_add_keyword:
  "lists_distinct st \<Longrightarrow> lists_distinct (add_keyword st k arg)"
  by (cases arg) (auto simp: lists_distinct_def add_keyword_def)

lemma lists_distinct_new_list:
  "lists_distinct st \<Longrightarrow> distinct xs \<Longrightarrow> lists_distinct (new_list st xs)"
  by (auto simp: lists_distinct_def new_list_def)

lemma refs_ok_run_call: "refs_ok st \<Longrightarrow> refs_ok (run_call st c)"
proof (cases c)
  case (Add_misspelling k m)
  assume "refs_ok st"
  with Add_misspelling show ?thesis by (simp add: refs_ok_add_misspelling)
next
  case (Add_keyword k a)
  assume ok: "refs_ok st"
  show ?thesis
  proof (cases a)
    case No_list
    with Add_keyword ok show ?thesis by (simp add: refs_ok_add_keyword_none)
  next
    case (New_list xs)
    have "fresh st < fresh (new_list st xs)" by (simp add: new_list_def)
    with Add_keyword New_list ok show ?thesis
      by (simp add: refs_ok_add_keyword_some refs_ok_new_list)
  next
    case (Same_list r)
    with Add_keyword ok show ?thesis by (simp add: refs_ok_add_keyword_some)
  qed
qed

lemma refs_ok_run: "refs_ok st \<Longrightarrow> refs_ok (run st calls)"
  unfolding run_def by (induction calls arbitrary: st) (simp_all add: refs_ok_run_call)

lemma lists_distinct_run_call:
  "lists_distinct st \<Longrightarrow> list_all distinct (new_lists [c]) \<Longrightarrow> lists_distinct (run_call st c)"
proof (cases c)
  case (Add_misspelling k m)
  assume "lists_distinct st"
  with Add_misspelling show ?thesis by (simp add: lists_distinct_add_misspelling)
next
  case (Add_keyword k a)
  assume d: "lists_distinct st" and n: "list_all distinct (new_lists [c])"
  show ?thesis
  proof (cases a)
    case No_list
    with Add_keyword d show ?thesis by (simp add: lists_distinct_add_keyword)
  next
    case (New_list xs)
    with Add_keyword d n show ?thesis
      by (simp add: lists_distinct_add_keyword lists_distinct_new_list)
  next
    case (Same_list r)
    with Add_keyword d show ?thesis by (simp add: lists_distinct_add_keyword)
  qed
qed

lemma new_lists_Cons: "new_lists (c # cs) = new_lists [c] @ new_lists cs"
proof (cases c)
  case (Add_keyword k a)
  then show ?thesis by (cases a) simp_all
qed simp

lemma lists_distinct_run:
  "lists_distinct st \<Longrightarrow> list_all distinct (new_lists calls) \<Longrightarrow> lists_distinct (run st calls)"
  unfolding run_def
proof (induction calls arbitrary: st)
  case Nil
  then show ?case by simp
next
  case (Cons c cs)
  from Cons.prems(2) have "list_all distinct (new_lists [c])" "list_all distinct (new_lists cs)"
    by (simp_all add: new_lists_Cons [of c cs])
  with Cons.IH [of "run_call st c"] Cons.prems(1) show ?case
    by (simp add: lists_distinct_run_call)
qed

lemma items_entry:
  "(k, ms) \<in> set (items st) \<Longrightarrow> \<exists>r. (k, r) \<in> set (keyword_mappings st) \<and> ms = store st r"
  by (auto simp: items_def)

section \<open>The scan as a map over the words of the text\<close>

lemma next_is_word_simps [simp]:
  "next_is_word isw [] = False" "next_is_word isw (c # cs) = isw c"
  by (simp_all add: next_is_word_def)

lemma not_next_is_word_dropWhile [simp]: "\<not> next_is_word isw (dropWhile isw s)"
  by (induction s) simp_all

lemma takeWhile_word_prefix:
  "list_all isw u \<Longrightarrow> \<not> next_is_word isw r \<Longrightarrow> takeWhile isw (u @ r) = u"
  by (induction u) (auto simp: next_is_word_def split: list.splits)

lemma dropWhile_word_prefix:
  "list_all isw u \<Longrightarrow> \<not> next_is_word isw r \<Longrightarrow> dropWhile isw (u @ r) = r"
  by (induction u) (auto simp: next_is_word_def split: list.splits)

lemma tokmap_word_prefix:
  assumes "wordstr isw u" and "\<not> next_is_word isw r"
  shows "tokmap isw f (u @ r) = f u @ tokmap isw f r"
proof -
  from assms(1) obtain a u' where u: "u = a # u'" and a: "isw a" and u': "list_all isw u'"
    by (cases u) (auto simp: wordstr_def)
  show ?thesis
    using a takeWhile_word_prefix [OF u' assms(2)] dropWhile_word_prefix [OF u' assms(2)]
    by (simp add: u)
qed

lemma not_next_is_word_tokmap:
  "\<not> next_is_word isw r \<Longrightarrow> \<not> next_is_word isw (tokmap isw f r)"
  by (cases r) auto

lemma tokmap_id: "(\<And>w. f w = w) \<Longrightarrow> tokmap isw f s = s"
  by (induction isw f s rule: tokmap.induct) simp_all

lemma wordstr_token: "isw c \<Longrightarrow> wordstr isw (c # takeWhile isw cs)"
  by (simp add: wordstr_def list_all_iff) (meson set_takeWhileD)

lemma tokmap_comp:
  assumes g: "\<And>w. wordstr isw w \<Longrightarrow> wordstr isw (g w)"
  shows "tokmap isw f (tokmap isw g s) = tokmap isw (\<lambda>w. f (g w)) s"
  using g
proof (induction isw g s rule: tokmap.induct)
  case (1 isw g)
  show ?case by simp
next
  case (2 isw g c cs)
  show ?case
  proof (cases "isw c")
    case True
    have "tokmap isw f (g (c # takeWhile isw cs) @ tokmap isw g (dropWhile isw cs)) =
        f (g (c # takeWhile isw cs)) @ tokmap isw f (tokmap isw g (dropWhile isw cs))"
      by (rule tokmap_word_prefix)
        (simp_all add: "2.prems" wordstr_token True not_next_is_word_tokmap)
    with True "2.IH"(1) "2.prems" show ?thesis by simp
  next
    case False
    with "2.IH"(2) "2.prems" show ?thesis by simp
  qed
qed

lemma sub_from_Nil: "m \<noteq> [] \<Longrightarrow> sub_from isw m k pw [] = []"
  by (subst sub_from.simps) (auto simp: match_here_def)

lemma no_match_inside_word:
  "isw c \<Longrightarrow> \<not> match_here isw m True (c # cs)"
  by (simp add: match_here_def boundary_def)

lemma no_match_at_nonword:
  assumes "wordstr isw m" and "\<not> isw c"
  shows "\<not> match_here isw m pw (c # cs)"
proof
  assume "match_here isw m pw (c # cs)"
  then have t: "take (length m) (c # cs) = m" by (simp add: match_here_def)
  from assms(1) obtain a m' where m: "m = a # m'" and "isw a"
    by (cases m) (auto simp: wordstr_def)
  with t assms(2) show False by simp
qed

lemma match_at_word_start:
  assumes m: "wordstr isw m" and c: "isw c"
  shows "match_here isw m False (c # cs) = (c # takeWhile isw cs = m)"
proof
  assume "match_here isw m False (c # cs)"
  then have t: "take (length m) (c # cs) = m"
    and b: "\<not> next_is_word isw (drop (length m) (c # cs))"
    using m by (auto simp: match_here_def boundary_def wordstr_def list_all_iff)
  have "c # cs = m @ drop (length m) (c # cs)"
    using t by (metis append_take_drop_id)
  then have "takeWhile isw (c # cs) = m"
    using takeWhile_word_prefix [of isw m "drop (length m) (c # cs)"] m b
    by (simp add: wordstr_def)
  with c show "c # takeWhile isw cs = m" by simp
next
  assume w: "c # takeWhile isw cs = m"
  then have l: "length m = Suc (length (takeWhile isw cs))" by auto
  have t: "take (length m) (c # cs) = m"
    unfolding l using w by (simp add: takeWhile_eq_take [symmetric])
  have d: "drop (length m) (c # cs) = dropWhile isw cs"
    unfolding l by (simp add: dropWhile_eq_drop [symmetric])
  from m have "isw (last m)" "m \<noteq> []"
    by (auto simp: wordstr_def list_all_iff)
  with t d c show "match_here isw m False (c # cs)"
    by (simp add: match_here_def boundary_def)
qed

lemma sub_from_tokmap_aux:
  assumes m: "wordstr isw m"
  shows "length s \<le> n \<Longrightarrow>
    sub_from isw m k False s = tokmap isw (step m k) s \<and>
    sub_from isw m k True s = takeWhile isw s @ tokmap isw (step m k) (dropWhile isw s)"
proof (induction n arbitrary: s)
  case 0
  with m show ?case by (simp add: sub_from_Nil wordstr_def)
next
  case (Suc n)
  from m have ne: "m \<noteq> []" by (simp add: wordstr_def)
  show ?case
  proof (cases s)
    case Nil
    with ne show ?thesis by (simp add: sub_from_Nil)
  next
    case (Cons c cs)
    with Suc.prems have len: "length cs \<le> n" by simp
    note IH = Suc.IH [OF len]
    show ?thesis
    proof (cases "isw c")
      case False
      then have nm: "\<not> match_here isw m pw (c # cs)" for pw
        by (rule no_match_at_nonword [OF m])
      have "sub_from isw m k pw (c # cs) = c # sub_from isw m k False cs" for pw
        by (subst sub_from.simps) (simp add: nm False)
      with IH False show ?thesis by (simp add: Cons)
    next
      case True
      have inside: "sub_from isw m k True (c # cs) = c # sub_from isw m k True cs"
        by (subst sub_from.simps) (simp add: no_match_inside_word True)
      have b: "sub_from isw m k True (c # cs) =
          takeWhile isw (c # cs) @ tokmap isw (step m k) (dropWhile isw (c # cs))"
        using inside IH True by simp
      have a: "sub_from isw m k False (c # cs) = tokmap isw (step m k) (c # cs)"
      proof (cases "c # takeWhile isw cs = m")
        case False
        then have "\<not> match_here isw m False (c # cs)"
          by (simp add: match_at_word_start [OF m True])
        then have "sub_from isw m k False (c # cs) = c # sub_from isw m k True cs"
          by (subst sub_from.simps) (simp add: True)
        moreover have "step m k (c # takeWhile isw cs) = c # takeWhile isw cs"
          using False by (simp add: step_def)
        ultimately show ?thesis using IH True by simp
      next
        case eq: True
        then have mh: "match_here isw m False (c # cs)"
          by (simp add: match_at_word_start [OF m True])
        from eq have l: "length m = Suc (length (takeWhile isw cs))" by auto
        have d: "drop (length m) (c # cs) = dropWhile isw cs"
          unfolding l by (simp add: dropWhile_eq_drop [symmetric])
        have lw: "isw (last m)" using m ne by (simp add: wordstr_def list_all_iff)
        have "length (dropWhile isw cs) \<le> n"
          using len length_dropWhile_le [of isw cs] by simp
        from Suc.IH [OF this]
        have "sub_from isw m k True (dropWhile isw cs) =
            takeWhile isw (dropWhile isw cs) @
            tokmap isw (step m k) (dropWhile isw (dropWhile isw cs))"
          by simp
        also have "\<dots> = tokmap isw (step m k) (dropWhile isw cs)"
          using takeWhile_word_prefix [of isw "[]" "dropWhile isw cs"]
            dropWhile_word_prefix [of isw "[]" "dropWhile isw cs"]
          by simp
        finally have r: "sub_from isw m k True (dropWhile isw cs) =
            tokmap isw (step m k) (dropWhile isw cs)" .
        have "sub_from isw m k False (c # cs) =
            k @ sub_from isw m k (isw (last m)) (drop (length m) (c # cs))"
          by (subst sub_from.simps) (simp add: mh ne)
        moreover have "step m k (c # takeWhile isw cs) = k"
          using eq by (simp add: step_def)
        ultimately show ?thesis using lw d r True by simp
      qed
      from a b show ?thesis by (simp add: Cons)
    qed
  qed
qed

lemma sub_from_tokmap:
  "wordstr isw m \<Longrightarrow> sub_from isw m k False s = tokmap isw (step m k) s"
  using sub_from_tokmap_aux [of isw m s "length s" k] by simp

lemma word_misspellings_cases:
  "word_misspellings k ms w = w \<or> word_misspellings k ms w = k"
proof (induction ms arbitrary: w)
  case Nil
  show ?case by simp
next
  case (Cons m ms)
  show ?case
    using Cons.IH [of w] Cons.IH [of k] by (auto simp: step_def)
qed

lemma wordstr_word_misspellings:
  "wordstr isw k \<Longrightarrow> wordstr isw w \<Longrightarrow> wordstr isw (word_misspellings k ms w)"
  using word_misspellings_cases [of k ms w] by auto

lemma wordstr_step: "wordstr isw k \<Longrightarrow> wordstr isw w \<Longrightarrow> wordstr isw (step m k w)"
  by (simp add: step_def)

lemma no_backslash: "\<not> isw 92 \<Longrightarrow> wordstr isw k \<Longrightarrow> 92 \<notin> set k"
  by (auto simp: wordstr_def list_all_iff)

lemma not_word_backslash: "\<not> is_word lib 92"
  by (simp add: is_word_def)

lemma replacement_plain: "92 \<notin> set k \<Longrightarrow> replacement lib m k = Some k"
  by (simp add: replacement_def)

lemma fix_misspellings_tokmap:
  assumes k: "wordstr (is_word lib) k"
  shows "list_all (wordstr (is_word lib)) ms \<Longrightarrow>
    fix_misspellings lib k ms s = Some (tokmap (is_word lib) (word_misspellings k ms) s)"
proof (induction ms arbitrary: s)
  case Nil
  show ?case by (simp add: tokmap_id)
next
  case (Cons m ms)
  from Cons.prems have m: "wordstr (is_word lib) m" and ms: "list_all (wordstr (is_word lib)) ms"
    by simp_all
  show ?case
  proof (cases "m = k")
    case True
    with Cons.IH [OF ms] show ?thesis by simp
  next
    case False
    have "92 \<notin> set k" by (rule no_backslash [OF not_word_backslash k])
    then have "re_sub_word lib m k s = Some (tokmap (is_word lib) (step m k) s)"
      by (simp add: re_sub_word_def replacement_plain sub_from_tokmap [OF m])
    moreover have "tokmap (is_word lib) (word_misspellings k ms) (tokmap (is_word lib) (step m k) s) =
        tokmap (is_word lib) (\<lambda>w. word_misspellings k ms (step m k w)) s"
      by (rule tokmap_comp) (rule wordstr_step [OF k])
    moreover have "(\<lambda>w. word_misspellings k ms (step m k w)) = word_misspellings k (m # ms)"
      using False by (simp add: fun_eq_iff)
    ultimately show ?thesis
      using False Cons.IH [OF ms] by simp
  qed
qed

lemma wordstr_word_items:
  "wordy isw tbl \<Longrightarrow> wordstr isw w \<Longrightarrow> wordstr isw (word_items tbl w)"
  by (induction tbl arbitrary: w) (auto simp: wordy_def wordstr_word_misspellings)

lemma fix_items_tokmap:
  "wordy (is_word lib) tbl \<Longrightarrow>
   fix_items lib tbl s = Some (tokmap (is_word lib) (word_items tbl) s)"
proof (induction tbl arbitrary: s)
  case Nil
  show ?case by (simp add: tokmap_id)
next
  case (Cons e tbl)
  obtain k ms where e: "e = (k, ms)" by (cases e)
  from Cons.prems e have k: "wordstr (is_word lib) k"
    and ms: "list_all (wordstr (is_word lib)) ms" and tbl: "wordy (is_word lib) tbl"
    by (simp_all add: wordy_def)
  have "tokmap (is_word lib) (word_items tbl) (tokmap (is_word lib) (word_misspellings k ms) s) =
      tokmap (is_word lib) (\<lambda>w. word_items tbl (word_misspellings k ms w)) s"
    by (rule tokmap_comp) (rule wordstr_word_misspellings [OF k])
  moreover have "(\<lambda>w. word_items tbl (word_misspellings k ms w)) = word_items ((k, ms) # tbl)"
    by (simp add: fun_eq_iff)
  ultimately show ?case
    using fix_misspellings_tokmap [OF k ms] Cons.IH [OF tbl] by (simp add: e)
qed

lemma items_init: "items init = seed_items"
  by (simp add: items_def init_def) (rule nth_equalityI, simp_all add: case_prod_beta)

lemma wordy_seed: "wordy (is_word lib) seed_items"
  by (simp add: wordy_def wordstr_def seed_items_def seed_def py_def is_word_def)

lemma fix_spelling_init:
  "fix_spelling lib init s = Some (tokmap (is_word lib) (word_items seed_items) s)"
  unfolding fix_spelling_def items_init
  by (rule fix_items_tokmap [OF wordy_seed])

section \<open>Text without a whole-word occurrence\<close>
















section \<open>The effect on one word\<close>

lemma word_misspellings_fixed:
  "w \<notin> set (filter (\<lambda>m. m \<noteq> k) ms) \<Longrightarrow> word_misspellings k ms w = w"
  by (induction ms) (auto simp: step_def split: if_splits)

lemma word_items_fixed:
  "w \<notin> set (proper_alternates tbl) \<Longrightarrow> word_items tbl w = w"
proof (induction tbl)
  case Nil
  show ?case by simp
next
  case (Cons e tbl)
  obtain k ms where e: "e = (k, ms)" by (cases e)
  from Cons.prems e have "w \<notin> set (filter (\<lambda>m. m \<noteq> k) ms)"
    and "w \<notin> set (proper_alternates tbl)"
    by (simp_all add: proper_alternates_def)
  with Cons.IH show ?case by (simp add: e word_misspellings_fixed)
qed

lemma word_items_cases:
  "word_items tbl w = w \<or> word_items tbl w \<in> set (map fst tbl)"
proof (induction tbl arbitrary: w)
  case Nil
  show ?case by simp
next
  case (Cons e tbl)
  obtain k ms where e: "e = (k, ms)" by (cases e)
  from word_misspellings_cases [of k ms w] Cons.IH [of "word_misspellings k ms w"]
  show ?case by (auto simp: e)
qed

lemma word_items_idem:
  assumes "list_all (\<lambda>k. k \<notin> set (proper_alternates tbl)) (map fst tbl)"
  shows "word_items tbl (word_items tbl w) = word_items tbl w"
proof (cases "word_items tbl w = w")
  case True
  then show ?thesis by simp
next
  case False
  with word_items_cases [of tbl w] have "word_items tbl w \<in> set (map fst tbl)" by simp
  with assms have "word_items tbl w \<notin> set (proper_alternates tbl)"
    by (auto simp: list_all_iff)
  then show ?thesis by (rule word_items_fixed)
qed

lemma seed_no_chain:
  "list_all (\<lambda>k. k \<notin> set (proper_alternates seed_items)) (map fst seed_items)"
  by (simp add: proper_alternates_def seed_items_def seed_def py_def)

lemma word_misspellings_canonical: "word_misspellings k ms k = k"
  by (induction ms) (simp_all add: step_def)

lemma word_misspellings_hit:
  "m \<in> set ms \<Longrightarrow> m \<noteq> k \<Longrightarrow> word_misspellings k ms m = k"
proof (induction ms)
  case Nil
  then show ?case by simp
next
  case (Cons a ms)
  show ?case
  proof (cases "a = m")
    case True
    with Cons.prems show ?thesis by (simp add: step_def word_misspellings_canonical)
  next
    case False
    with Cons show ?thesis by (simp add: step_def)
  qed
qed

lemma proper_alternates_Cons:
  "proper_alternates ((k, ms) # tbl) = filter (\<lambda>m. m \<noteq> k) ms @ proper_alternates tbl"
  by (simp add: proper_alternates_def)

lemma proper_alternates_member:
  "(k, ms) \<in> set tbl \<Longrightarrow> m \<in> set ms \<Longrightarrow> m \<noteq> k \<Longrightarrow> m \<in> set (proper_alternates tbl)"
  by (auto simp: proper_alternates_def)

lemma word_items_hit:
  assumes "(k, ms) \<in> set tbl" and "m \<in> set ms" and "m \<noteq> k"
    and "distinct (proper_alternates tbl)" and "k \<notin> set (proper_alternates tbl)"
  shows "word_items tbl m = k"
  using assms
proof (induction tbl)
  case Nil
  then show ?case by simp
next
  case (Cons e tbl)
  obtain k0 ms0 where e: "e = (k0, ms0)" by (cases e)
  from Cons.prems(4,5) have d: "distinct (proper_alternates tbl)"
    and k: "k \<notin> set (proper_alternates tbl)"
    and disj: "set (filter (\<lambda>m. m \<noteq> k0) ms0) \<inter> set (proper_alternates tbl) = {}"
    by (simp_all add: e proper_alternates_Cons)
  show ?case
  proof (cases "m \<in> set ms0 \<and> m \<noteq> k0")
    case True
    with disj have "m \<notin> set (proper_alternates tbl)" by auto
    with Cons.prems(1,2,3) have "(k, ms) = (k0, ms0)"
      using proper_alternates_member [of k ms tbl m] by (auto simp: e)
    with True have "word_misspellings k0 ms0 m = k" and "k0 = k"
      by (simp_all add: word_misspellings_hit)
    with k show ?thesis by (simp add: e word_items_fixed)
  next
    case False
    then have f: "word_misspellings k0 ms0 m = m"
      by (intro word_misspellings_fixed) auto
    from False Cons.prems(1,2,3) have "(k, ms) \<in> set tbl" by (auto simp: e)
    from Cons.IH [OF this Cons.prems(2,3) d k] f show ?thesis by (simp add: e)
  qed
qed

lemma seed_alternates_distinct: "distinct (proper_alternates seed_items)"
  by (simp add: proper_alternates_def seed_items_def seed_def py_def)

lemma seed_word_items:
  assumes "(k, ms) \<in> set seed_items" and "m \<in> set ms"
  shows "word_items seed_items m = k"
proof -
  from assms(1) have k: "k \<notin> set (proper_alternates seed_items)"
    using seed_no_chain by (force simp: list_all_iff)
  show ?thesis
  proof (cases "m = k")
    case True
    with k show ?thesis by (simp add: word_items_fixed)
  next
    case False
    from word_items_hit [OF assms False seed_alternates_distinct k] show ?thesis .
  qed
qed

lemma fix_spelling_idem: "fix_spelling lib init (tokmap (is_word lib) (word_items seed_items) s)
   = Some (tokmap (is_word lib) (word_items seed_items) s)"
proof -
  have "tokmap (is_word lib) (word_items seed_items) (tokmap (is_word lib) (word_items seed_items) s) =
      tokmap (is_word lib) (\<lambda>w. word_items seed_items (word_items seed_items w)) s"
    by (rule tokmap_comp) (rule wordstr_word_items [OF wordy_seed])
  then show ?thesis
    by (simp add: fix_spelling_init word_items_idem [OF seed_no_chain])
qed

lemma last_dropWhile: "dropWhile P xs \<noteq> [] \<Longrightarrow> last (dropWhile P xs) = last xs"
  by (induction xs) (auto split: if_splits)

lemma tokmap_append:
  "\<not> prev_is_word isw pre \<Longrightarrow> tokmap isw f (pre @ t) = tokmap isw f pre @ tokmap isw f t"
proof (induction isw f pre rule: tokmap.induct)
  case (1 isw f)
  show ?case by simp
next
  case (2 isw f c cs)
  show ?case
  proof (cases "isw c")
    case False
    from "2.prems" have "\<not> prev_is_word isw cs"
      by (auto simp: prev_is_word_def)
    with "2.IH"(2) False show ?thesis by simp
  next
    case True
    from "2.prems" True have ex: "\<exists>x \<in> set cs. \<not> isw x"
      by (cases "cs = []") (auto simp: prev_is_word_def)
    then have t: "takeWhile isw (cs @ t) = takeWhile isw cs"
      by (auto simp: takeWhile_append1)
    have d: "dropWhile isw (cs @ t) = dropWhile isw cs @ t"
      using ex by (auto simp: dropWhile_append1)
    from ex have ne: "dropWhile isw cs \<noteq> []"
      by (auto simp: dropWhile_eq_Nil_conv)
    then have "last (dropWhile isw cs) = last cs"
      by (rule last_dropWhile)
    with "2.prems" ne True have "\<not> prev_is_word isw (dropWhile isw cs)"
      by (cases "cs = []") (auto simp: prev_is_word_def)
    with "2.IH"(1) True t d show ?thesis by simp
  qed
qed

lemma tokmap_standalone:
  assumes "wordstr isw u" and "\<not> prev_is_word isw pre" and "\<not> next_is_word isw post"
  shows "tokmap isw f (pre @ u @ post) = tokmap isw f pre @ f u @ tokmap isw f post"
  using tokmap_append [OF assms(2)] tokmap_word_prefix [OF assms(1) assms(3)] by simp

section \<open>The claims on the table and on unchanged text\<close>

lemma items_get:
  "k \<in> set (keys st) \<Longrightarrow> (k, get_misspellings st k) \<in> set (items st)"
proof -
  assume "k \<in> set (keys st)"
  then obtain r where r: "map_of (keyword_mappings st) k = Some r"
    by (auto simp: known_key_iff)
  then have "(k, r) \<in> set (keyword_mappings st)" by (rule map_of_SomeD)
  then have "(k, store st r) \<in> set (items st)" by (force simp: items_def)
  with r show ?thesis by (simp add: get_misspellings_def)
qed

text \<open>
  C9, as amended. In every state that a sequence of \<open>add_misspelling\<close> and
  \<open>add_keyword\<close> calls reaches from the seed table, every entry holds its keyword.
  When every list that the calls build and pass to \<open>add_keyword\<close> is free of
  duplicates, no entry holds a spelling twice. Without that condition the second part
  fails: \<open>add_keyword\<close> stores the list it is given and removes no duplicates.
\<close>

theorem table_invariant:
  "list_all (\<lambda>(k, ms). k \<in> set ms \<and> (list_all distinct (new_lists calls) \<longrightarrow> distinct ms))
     (items (run init calls))"
proof -
  have ok: "refs_ok (run init calls)"
    by (rule refs_ok_run [OF refs_ok_init])
  have "k \<in> set ms \<and> (list_all distinct (new_lists calls) \<longrightarrow> distinct ms)"
    if "(k, ms) \<in> set (items (run init calls))" for k ms
  proof -
    from items_entry [OF that] obtain r
      where r: "(k, r) \<in> set (keyword_mappings (run init calls))" "ms = store (run init calls) r"
      by blast
    from ok r have "k \<in> set ms" by (auto simp: refs_ok_def)
    moreover have "distinct ms" if "list_all distinct (new_lists calls)"
      using lists_distinct_run [OF lists_distinct_init that] r(2)
      by (simp add: lists_distinct_def)
    ultimately show ?thesis by blast
  qed
  then show ?thesis by (auto simp: list_all_iff)
qed

theorem table_invariant_witness:
  "list_all distinct
     (new_lists [Add_misspelling (py ''def'') (py ''newdef''),
                 Add_keyword (py ''x'') (New_list [py ''a'', py ''b''])]) \<and>
   py ''x'' \<in> set (get_misspellings
     (run init [Add_misspelling (py ''def'') (py ''newdef''),
                Add_keyword (py ''x'') (New_list [py ''a'', py ''b''])]) (py ''x'')) \<and>
   distinct (get_misspellings
     (run init [Add_misspelling (py ''def'') (py ''newdef''),
                Add_keyword (py ''x'') (New_list [py ''a'', py ''b''])]) (py ''x''))"
proof -
  define calls where "calls = [Add_misspelling (py ''def'') (py ''newdef''),
    Add_keyword (py ''x'') (New_list [py ''a'', py ''b''])]"
  have d: "list_all distinct (new_lists calls)"
    by (simp add: calls_def py_def)
  have "py ''x'' \<in> set (keys (run init calls))"
    by (simp add: calls_def run_def add_keyword_keys)
  then have "(py ''x'', get_misspellings (run init calls) (py ''x'')) \<in> set (items (run init calls))"
    by (rule items_get)
  with table_invariant [of calls] d
  have "py ''x'' \<in> set (get_misspellings (run init calls) (py ''x''))"
    and "distinct (get_misspellings (run init calls) (py ''x''))"
    by (auto simp: list_all_iff)
  with d show ?thesis by (simp add: calls_def)
qed

theorem table_invariant_counterexample:
  "\<not> distinct (get_misspellings
       (run init [Add_keyword (py ''x'') (New_list [py ''a'', py ''a''])]) (py ''x''))"
  by (simp add: run_def add_keyword_def new_list_def get_misspellings_def update_conv' py_def)






section \<open>The claims on the exact pass\<close>

lemma seed_entry_wordstr:
  "(k, ms) \<in> set seed_items \<Longrightarrow> m \<in> set ms \<Longrightarrow> wordstr (is_word lib) m"
  using wordy_seed [of lib] by (auto simp: wordy_def list_all_iff)

lemma fix_spelling_standalone:
  assumes "(k, ms) \<in> set (items init)" and "m \<in> set ms"
    and "\<not> prev_is_word (is_word lib) pre" and "\<not> next_is_word (is_word lib) post"
  shows "fix_spelling lib init (pre @ m @ post) =
    Some (tokmap (is_word lib) (word_items seed_items) pre @ k @
          tokmap (is_word lib) (word_items seed_items) post)"
proof -
  from assms(1,2) have e: "(k, ms) \<in> set seed_items" "m \<in> set ms"
    by (simp_all add: items_init)
  from tokmap_standalone [OF seed_entry_wordstr [OF e] assms(3,4)] seed_word_items [OF e]
  show ?thesis by (simp add: fix_spelling_init)
qed

text \<open>
  C1. The source has no fuzzy mode: \<open>fix_spelling\<close> is the exact pass. For every entry
  of the seed table and every spelling \<open>m\<close> registered for its keyword \<open>k\<close>:
  \<open>fix_spelling\<close> of \<open>m\<close> alone is \<open>k\<close>, and when \<open>m\<close> stands in a text as a whole word
  (the text before it does not end in a word character, the text behind it does not
  begin with one), the result is the corrected text before it, then \<open>k\<close>, then the
  corrected text behind it.
\<close>

theorem exact_table_coverage:
  assumes "(k, ms) \<in> set (items init)" and "m \<in> set ms"
    and "\<not> prev_is_word (is_word lib) pre" and "\<not> next_is_word (is_word lib) post"
  shows "fix_spelling lib init m = Some k \<and>
    (\<exists>a b. fix_spelling lib init pre = Some a \<and> fix_spelling lib init post = Some b \<and>
       fix_spelling lib init (pre @ m @ post) = Some (a @ k @ b))"
proof -
  have "\<not> prev_is_word (is_word lib) []" "\<not> next_is_word (is_word lib) []"
    by (simp_all add: prev_is_word_def)
  from fix_spelling_standalone [OF assms(1,2) this]
  have "fix_spelling lib init m = Some k" by simp
  with fix_spelling_standalone [OF assms] show ?thesis
    by (simp add: fix_spelling_init)
qed

theorem exact_table_coverage_witness:
  "(py ''def'', map py [''def'', ''deff'', ''define'', ''defin'']) \<in> set (items init) \<and>
   py ''deff'' \<in> set (map py [''def'', ''deff'', ''define'', ''defin'']) \<and>
   \<not> prev_is_word (is_word ascii_lib) (py ''x = 1; '') \<and>
   \<not> next_is_word (is_word ascii_lib) (py '' f(): iff'') \<and>
   fix_spelling ascii_lib init (py ''deff'') = Some (py ''def'') \<and>
   fix_spelling ascii_lib init (py ''x = 1; '' @ py ''deff'' @ py '' f(): iff'') =
     Some (py ''x = 1; '' @ py ''def'' @ py '' f(): if'')"
proof -
  have e: "(py ''def'', map py [''def'', ''deff'', ''define'', ''defin'']) \<in> set (items init)"
    unfolding items_init by (simp add: seed_items_def seed_def)
  have m: "py ''deff'' \<in> set (map py [''def'', ''deff'', ''define'', ''defin''])"
    by simp
  have p: "\<not> prev_is_word (is_word ascii_lib) (py ''x = 1; '')"
    by (simp add: prev_is_word_def py_def is_word_def)
  have n: "\<not> next_is_word (is_word ascii_lib) (py '' f(): iff'')"
    by (simp add: py_def is_word_def)
  have a: "fix_spelling ascii_lib init (py ''x = 1; '') = Some (py ''x = 1; '')"
    unfolding fix_spelling_init
    by (simp add: py_def is_word_def seed_items_def seed_def step_def)
  have b: "fix_spelling ascii_lib init (py '' f(): iff'') = Some (py '' f(): if'')"
    unfolding fix_spelling_init
    by (simp add: py_def is_word_def seed_items_def seed_def step_def)
  from exact_table_coverage [OF e m p n] a b e m p n show ?thesis by auto
qed

text \<open>
  C4. \<open>define\<close> is a registered alternate of \<open>def\<close>, and still
  \<open>define_function = 1\<close> is returned as it is; \<open>DEFF hello():\<close> is returned as it is.
  In general \<open>fix_spelling\<close> with the seed table changes the text word by word, a word
  being a maximal run of word characters, and a word that is not, code point for code
  point, an alternate of the table is kept.
\<close>

theorem whole_word_case_sensitive:
  "py ''define'' \<in> set (get_misspellings init (py ''def'')) \<and>
   fix_spelling lib init (py ''define_function = 1'') = Some (py ''define_function = 1'') \<and>
   fix_spelling lib init (py ''DEFF hello():'') = Some (py ''DEFF hello():'') \<and>
   fix_spelling lib init s = Some (tokmap (is_word lib) (word_items (items init)) s) \<and>
   (w \<notin> set (proper_alternates (items init)) \<longrightarrow> word_items (items init) w = w)"
proof -
  have "py ''define'' \<in> set (get_misspellings init (py ''def''))"
    by (simp add: init_entry_of_def_keyword)
  moreover have "fix_spelling lib init (py ''define_function = 1'') = Some (py ''define_function = 1'')"
    unfolding fix_spelling_init
    by (simp add: py_def is_word_def seed_items_def seed_def step_def)
  moreover have "fix_spelling lib init (py ''DEFF hello():'') = Some (py ''DEFF hello():'')"
    unfolding fix_spelling_init
    by (simp add: py_def is_word_def seed_items_def seed_def step_def)
  ultimately show ?thesis
    by (simp add: items_init fix_spelling_init word_items_fixed)
qed

theorem whole_word_case_sensitive_witness:
  "py ''DEFF'' \<notin> set (proper_alternates (items init)) \<and>
   word_items (items init) (py ''DEFF'') = py ''DEFF'' \<and>
   fix_spelling ascii_lib init (py ''DEFF hello():'') = Some (py ''DEFF hello():'')"
proof -
  have "py ''DEFF'' \<notin> set (proper_alternates (items init))"
    unfolding items_init
    by (simp add: proper_alternates_def seed_items_def seed_def py_def)
  with whole_word_case_sensitive [of ascii_lib "[]" "py ''DEFF''"] show ?thesis by simp
qed

text \<open>
  C5. The quoted \<open>deff\<close> in \<open>print("deff is not a function")\<close> is rewritten to
  \<open>def\<close>. In general a registered spelling between two double quotes is replaced by
  its keyword, whatever text stands before the opening and behind the closing quote.
\<close>

theorem quoted_text_rewritten:
  "fix_spelling lib init (py ''print(\"deff is not a function\")'') =
     Some (py ''print(\"def is not a function\")'') \<and>
   ((k, ms) \<in> set (items init) \<and> m \<in> set ms \<longrightarrow>
      (\<exists>a b. fix_spelling lib init (pre @ py ''\"'') = Some a \<and>
             fix_spelling lib init (py ''\"'' @ post) = Some b \<and>
             fix_spelling lib init ((pre @ py ''\"'') @ m @ (py ''\"'' @ post)) = Some (a @ k @ b)))"
proof -
  have "fix_spelling lib init (py ''print(\"deff is not a function\")'') =
     Some (py ''print(\"def is not a function\")'')"
    unfolding fix_spelling_init
    by (simp add: py_def is_word_def seed_items_def seed_def step_def)
  moreover have "\<not> prev_is_word (is_word lib) (pre @ py ''\"'')"
    by (simp add: prev_is_word_def py_def is_word_def)
  moreover have "\<not> next_is_word (is_word lib) (py ''\"'' @ post)"
    by (simp add: py_def is_word_def)
  ultimately show ?thesis
    using fix_spelling_standalone [of k ms m lib "pre @ py ''\"''" "py ''\"'' @ post"]
    by (simp add: fix_spelling_init)
qed

theorem quoted_text_rewritten_witness:
  "(py ''in'', map py [''in'', ''inn'', ''iin'']) \<in> set (items init) \<and>
   py ''inn'' \<in> set (map py [''in'', ''inn'', ''iin'']) \<and>
   fix_spelling ascii_lib init ((py ''s = '' @ py ''\"'') @ py ''inn'' @ (py ''\"'' @ py '' # c'')) =
     Some ((py ''s = '' @ py ''\"'') @ py ''in'' @ (py ''\"'' @ py '' # c''))"
proof -
  have e: "(py ''in'', map py [''in'', ''inn'', ''iin'']) \<in> set (items init)"
    unfolding items_init by (simp add: seed_items_def seed_def)
  have m: "py ''inn'' \<in> set (map py [''in'', ''inn'', ''iin''])"
    by simp
  have a: "fix_spelling ascii_lib init (py ''s = '' @ py ''\"'') = Some (py ''s = '' @ py ''\"'')"
    unfolding fix_spelling_init
    by (simp add: py_def is_word_def seed_items_def seed_def step_def)
  have b: "fix_spelling ascii_lib init (py ''\"'' @ py '' # c'') = Some (py ''\"'' @ py '' # c'')"
    unfolding fix_spelling_init
    by (simp add: py_def is_word_def seed_items_def seed_def step_def)
  from quoted_text_rewritten [of ascii_lib "py ''in''" "map py [''in'', ''inn'', ''iin'']"
      "py ''inn''" "py ''s = ''" "py '' # c''"] e m a b
  show ?thesis by auto
qed

text \<open>
  C10. No keyword of the seed table is an alternate, differing from its keyword, of any
  entry. For every text \<open>s\<close>, \<open>fix_spelling\<close> returns a text \<open>t\<close>, and \<open>fix_spelling\<close> of
  \<open>t\<close> is \<open>t\<close> again.
\<close>

theorem fix_spelling_idempotent:
  "list_all (\<lambda>k. k \<notin> set (proper_alternates (items init))) (keys init) \<and>
   (\<exists>t. fix_spelling lib init s = Some t \<and> fix_spelling lib init t = Some t)"
  using seed_no_chain fix_spelling_idem [of lib s]
  by (simp add: items_init keys_init fix_spelling_init)

theorem fix_spelling_idempotent_witness:
  "fix_spelling ascii_lib init (py ''deff f(): retrun no x'') = Some (py ''def f(): return not x'') \<and>
   fix_spelling ascii_lib init (py ''def f(): return not x'') = Some (py ''def f(): return not x'')"
proof -
  have a: "fix_spelling ascii_lib init (py ''deff f(): retrun no x'') =
      Some (py ''def f(): return not x'')"
    unfolding fix_spelling_init
    by (simp add: py_def is_word_def seed_items_def seed_def step_def)
  with fix_spelling_idempotent [of ascii_lib "py ''deff f(): retrun no x''"]
  show ?thesis by auto
qed

section \<open>The claims on the fuzzy matcher and the option corrector\<close>

lemma levenshtein_Nil2: "levenshtein xs [] = length xs"
  by (cases xs) simp_all

lemma tails_head: "\<exists>ts. tails ys = ys # ts"
  by (cases ys) simp_all

lemma lev_row_correct:
  "lev_row x t (map (levenshtein xs) (tails t)) = map (levenshtein (x # xs)) (tails t)"
proof (induction t)
  case Nil
  show ?case by (simp add: levenshtein_Nil2)
next
  case (Cons y ys)
  obtain ts where ts: "tails ys = ys # ts" using tails_head by blast
  from Cons.IH ts
  have "lev_row x ys (levenshtein xs ys # map (levenshtein xs) ts) =
      levenshtein (x # xs) ys # map (levenshtein (x # xs)) ts"
    by simp
  then show ?case by (simp add: ts)
qed

lemma lev_table_correct: "lev_table s t = map (levenshtein s) (tails t)"
  unfolding lev_table_def by (induction s) (simp_all add: lev_row_correct)

lemma levenshtein_code: "levenshtein s t = (case lev_table s t of [] \<Rightarrow> 0 | r # rs \<Rightarrow> r)"
  using tails_head [of t] by (auto simp: lev_table_correct)

lemma keys_seed: "keys init = map py (map fst seed)"
  by (simp add: keys_init seed_items_def case_prod_beta comp_def)

text \<open>
  C2. On the canonical keywords of the seed table the modelled matcher answers \<open>print\<close>
  for \<open>printt\<close> and nothing for \<open>de\<close>; \<open>deffffffffffffff\<close> is rejected by the length
  rule and gets no match; a disabled matcher answers nothing for every word and every
  vocabulary.
\<close>

theorem fuzzy_threshold_behaviour:
  "find_fuzzy_match True (keys init) (py ''printt'') = Some (py ''print'') \<and>
   find_fuzzy_match True (keys init) (py ''de'') = None \<and>
   length_rejected (keys init) (py ''deffffffffffffff'') \<and>
   find_fuzzy_match True (keys init) (py ''deffffffffffffff'') = None \<and>
   find_fuzzy_match False canon w = None"
proof -
  have a: "find_fuzzy_match True (keys init) (py ''printt'') = Some (py ''print'')"
    unfolding keys_seed
    by (simp add: find_fuzzy_match_def length_rejected_def longest_def seed_def py_def
        threshold_def similarity_def levenshtein_code lev_table_def beats_def length_gap_def
        del: levenshtein.simps)
  have b: "find_fuzzy_match True (keys init) (py ''de'') = None"
    unfolding keys_seed
    by (simp add: find_fuzzy_match_def length_rejected_def longest_def seed_def py_def
        threshold_def similarity_def levenshtein_code lev_table_def beats_def length_gap_def
        del: levenshtein.simps)
  have c: "length_rejected (keys init) (py ''deffffffffffffff'')"
    unfolding keys_seed
    by (simp add: length_rejected_def longest_def seed_def py_def)
  from a b c show ?thesis by (simp add: find_fuzzy_match_def)
qed

lemma correct_loop_map:
  "correct_loop isw tbl args fixed corrections =
     (fixed @ map (correct_option isw tbl) args,
      corrections @ filter (\<lambda>(a, b). a \<noteq> b) (zip args (map (correct_option isw tbl) args)))"
  by (induction args arbitrary: fixed corrections) simp_all

lemma best_of_member:
  "best_of w best cs = Some c \<Longrightarrow> best = Some c \<or> c \<in> set cs \<or> (\<exists>b. best = Some b \<and> c = b)"
  by (induction w best cs rule: best_of.induct) (auto split: if_splits)

lemma find_fuzzy_match_member:
  "find_fuzzy_match f canon w = Some c \<Longrightarrow> c \<in> set canon"
  by (auto simp: find_fuzzy_match_def split: if_splits dest: best_of_member)

lemma exact_lookup_member: "exact_lookup tbl n = Some c \<Longrightarrow> c \<in> set (map fst tbl)"
  by (induction tbl n rule: exact_lookup.induct) (auto split: if_splits)

lemma find_option_match_member:
  "find_option_match tbl n = Some c \<Longrightarrow> c \<in> set (map fst tbl)"
  by (auto simp: find_option_match_def split: option.splits
      dest: exact_lookup_member find_fuzzy_match_member)

lemma correct_option_cases:
  "correct_option isw tbl arg = arg \<or>
   (\<exists>c \<in> set (map fst tbl). correct_option isw tbl arg = py ''--'' @ c)"
proof (cases "long_option_name isw arg")
  case None
  then show ?thesis by (simp add: correct_option_def)
next
  case (Some n)
  show ?thesis
  proof (cases "find_option_match tbl n")
    case None
    with Some show ?thesis by (simp add: correct_option_def)
  next
    case (Some c)
    from find_option_match_member [OF this] Some \<open>long_option_name isw arg = Some n\<close>
    show ?thesis by (simp add: correct_option_def)
  qed
qed

lemma correct_option_not_long:
  "take 2 a \<noteq> py ''--'' \<or> drop 2 a = [] \<or> \<not> list_all isw (drop 2 a) \<Longrightarrow>
   correct_option isw tbl a = a"
  by (auto simp: correct_option_def long_option_name_def)

lemma correct_option_unrecognised:
  assumes "exact_lookup tbl (drop 2 a) = None"
    and "find_fuzzy_match True (map fst tbl) (drop 2 a) = None"
  shows "correct_option isw tbl a = a"
proof (cases "long_option_name isw a")
  case None
  then show ?thesis by (simp add: correct_option_def)
next
  case (Some n)
  then have "n = drop 2 a" by (auto simp: long_option_name_def split: if_splits)
  with assms Some show ?thesis by (simp add: correct_option_def find_option_match_def)
qed

lemma correct_option_exact:
  assumes "take 2 a = py ''--''" and "drop 2 a \<noteq> []" and "list_all isw (drop 2 a)"
    and "exact_lookup tbl (drop 2 a) = Some c"
  shows "correct_option isw tbl a = py ''--'' @ c"
  using assms by (simp add: correct_option_def long_option_name_def find_option_match_def)

lemma correct_option_fuzzy:
  assumes "take 2 a = py ''--''" and "drop 2 a \<noteq> []" and "list_all isw (drop 2 a)"
    and "exact_lookup tbl (drop 2 a) = None"
    and "find_fuzzy_match True (map fst tbl) (drop 2 a) = Some c"
  shows "correct_option isw tbl a = py ''--'' @ c"
  using assms by (simp add: correct_option_def long_option_name_def find_option_match_def)

lemma list_all_zip_map: "(\<And>a. P (a, f a)) \<Longrightarrow> list_all P (zip args (map f args))"
  by (induction args) simp_all

text \<open>
  C3. On the modelled option table \<open>--halp\<close> becomes \<open>--help\<close> and the pair of the two
  is reported; \<open>-i\<close> and \<open>test.py\<close> pass through with nothing reported; \<open>--unknown\<close>
  passes through. For every table and every argument list the output has the length
  of the input and is the input corrected position by position, each output argument
  being the input argument or \<open>--\<close> followed by a canonical name of the table. At every
  position: an argument that is not \<open>--\<close> followed by word characters (a short option,
  a positional argument) passes through; so does a long option whose name has no exact
  and no fuzzy match; a long option whose name the table lists becomes \<open>--\<close> with the
  canonical name, and so does one that only the fuzzy matcher recognises. The report
  lists, in order, the positions that changed.
\<close>

theorem option_correction:
  "correct_options lib option_mappings [py ''--halp''] =
     ([py ''--help''], [(py ''--halp'', py ''--help'')]) \<and>
   correct_options lib option_mappings [py ''-i'', py ''test.py''] =
     ([py ''-i'', py ''test.py''], []) \<and>
   correct_options lib option_mappings [py ''--unknown''] = ([py ''--unknown''], []) \<and>
   length (fst (correct_options lib tbl args)) = length args \<and>
   fst (correct_options lib tbl args) = map (correct_option (is_word lib) tbl) args \<and>
   list_all (\<lambda>(a, b). b = a \<or> (\<exists>c \<in> set (map fst tbl). b = py ''--'' @ c))
     (zip args (fst (correct_options lib tbl args))) \<and>
   list_all (\<lambda>(a, b).
       (take 2 a \<noteq> py ''--'' \<or> drop 2 a = [] \<or> \<not> list_all (is_word lib) (drop 2 a)
          \<longrightarrow> b = a) \<and>
       (exact_lookup tbl (drop 2 a) = None \<and>
        find_fuzzy_match True (map fst tbl) (drop 2 a) = None \<longrightarrow> b = a) \<and>
       (\<forall>c. take 2 a = py ''--'' \<and> drop 2 a \<noteq> [] \<and> list_all (is_word lib) (drop 2 a) \<and>
            exact_lookup tbl (drop 2 a) = Some c \<longrightarrow> b = py ''--'' @ c) \<and>
       (\<forall>c. take 2 a = py ''--'' \<and> drop 2 a \<noteq> [] \<and> list_all (is_word lib) (drop 2 a) \<and>
            exact_lookup tbl (drop 2 a) = None \<and>
            find_fuzzy_match True (map fst tbl) (drop 2 a) = Some c \<longrightarrow> b = py ''--'' @ c))
     (zip args (fst (correct_options lib tbl args))) \<and>
   snd (correct_options lib tbl args) =
     filter (\<lambda>(a, b). a \<noteq> b) (zip args (fst (correct_options lib tbl args)))"
proof -
  have a: "correct_option (is_word lib) option_mappings (py ''--halp'') = py ''--help''"
    by (simp add: correct_option_def long_option_name_def find_option_match_def
        option_mappings_def py_def is_word_def)
  have b: "correct_option (is_word lib) option_mappings (py ''-i'') = py ''-i''"
    "correct_option (is_word lib) option_mappings (py ''test.py'') = py ''test.py''"
    by (simp_all add: correct_option_def long_option_name_def py_def)
  have c: "correct_option (is_word lib) option_mappings (py ''--unknown'') = py ''--unknown''"
    by (simp add: correct_option_def long_option_name_def find_option_match_def
        option_mappings_def py_def is_word_def
        find_fuzzy_match_def length_rejected_def longest_def
        threshold_def similarity_def levenshtein_code lev_table_def
        del: levenshtein.simps)
  have d: "py ''--halp'' \<noteq> py ''--help''" by (simp add: py_def)
  have e: "list_all (\<lambda>(a, b). b = a \<or> (\<exists>c \<in> set (map fst tbl). b = py ''--'' @ c))
     (zip args (map (correct_option (is_word lib) tbl) args))"
    using correct_option_cases [of "is_word lib" tbl]
    by (intro list_all_zip_map) simp
  have f: "list_all (\<lambda>(a, b).
       (take 2 a \<noteq> py ''--'' \<or> drop 2 a = [] \<or> \<not> list_all (is_word lib) (drop 2 a)
          \<longrightarrow> b = a) \<and>
       (exact_lookup tbl (drop 2 a) = None \<and>
        find_fuzzy_match True (map fst tbl) (drop 2 a) = None \<longrightarrow> b = a) \<and>
       (\<forall>c. take 2 a = py ''--'' \<and> drop 2 a \<noteq> [] \<and> list_all (is_word lib) (drop 2 a) \<and>
            exact_lookup tbl (drop 2 a) = Some c \<longrightarrow> b = py ''--'' @ c) \<and>
       (\<forall>c. take 2 a = py ''--'' \<and> drop 2 a \<noteq> [] \<and> list_all (is_word lib) (drop 2 a) \<and>
            exact_lookup tbl (drop 2 a) = None \<and>
            find_fuzzy_match True (map fst tbl) (drop 2 a) = Some c \<longrightarrow> b = py ''--'' @ c))
     (zip args (map (correct_option (is_word lib) tbl) args))"
  proof (rule list_all_zip_map)
    fix a
    show "case (a, correct_option (is_word lib) tbl a) of (a, b) \<Rightarrow>
       (take 2 a \<noteq> py ''--'' \<or> drop 2 a = [] \<or> \<not> list_all (is_word lib) (drop 2 a)
          \<longrightarrow> b = a) \<and>
       (exact_lookup tbl (drop 2 a) = None \<and>
        find_fuzzy_match True (map fst tbl) (drop 2 a) = None \<longrightarrow> b = a) \<and>
       (\<forall>c. take 2 a = py ''--'' \<and> drop 2 a \<noteq> [] \<and> list_all (is_word lib) (drop 2 a) \<and>
            exact_lookup tbl (drop 2 a) = Some c \<longrightarrow> b = py ''--'' @ c) \<and>
       (\<forall>c. take 2 a = py ''--'' \<and> drop 2 a \<noteq> [] \<and> list_all (is_word lib) (drop 2 a) \<and>
            exact_lookup tbl (drop 2 a) = None \<and>
            find_fuzzy_match True (map fst tbl) (drop 2 a) = Some c \<longrightarrow> b = py ''--'' @ c)"
      using correct_option_not_long [of a "is_word lib" tbl]
        correct_option_unrecognised [of tbl a "is_word lib"]
        correct_option_exact [of a "is_word lib" tbl]
        correct_option_fuzzy [of a "is_word lib" tbl]
      by (simp only: prod.case) blast
  qed
  from a b c d e f show ?thesis
    by (simp add: correct_options_def correct_loop_map)
qed

theorem option_correction_witness:
  "take 2 (py ''-v'') \<noteq> py ''--'' \<and>
   exact_lookup option_mappings (drop 2 (py ''--zzzzzz'')) = None \<and>
   find_fuzzy_match True (map fst option_mappings) (drop 2 (py ''--zzzzzz'')) = None \<and>
   take 2 (py ''--halp'') = py ''--'' \<and> drop 2 (py ''--halp'') \<noteq> [] \<and>
   list_all (is_word ascii_lib) (drop 2 (py ''--halp'')) \<and>
   exact_lookup option_mappings (drop 2 (py ''--halp'')) = Some (py ''help'') \<and>
   fst (correct_options ascii_lib option_mappings [py ''-v'', py ''--zzzzzz'', py ''--halp'']) =
     [py ''-v'', py ''--zzzzzz'', py ''--help'']"
proof -
  define out where
    "out = fst (correct_options ascii_lib option_mappings [py ''-v'', py ''--zzzzzz'', py ''--halp''])"
  have h1: "take 2 (py ''-v'') \<noteq> py ''--''" by (simp add: py_def)
  have h2: "exact_lookup option_mappings (drop 2 (py ''--zzzzzz'')) = None"
    by (simp add: option_mappings_def py_def)
  have h3: "find_fuzzy_match True (map fst option_mappings) (drop 2 (py ''--zzzzzz'')) = None"
    by (simp add: option_mappings_def py_def
        find_fuzzy_match_def length_rejected_def longest_def
        threshold_def similarity_def levenshtein_code lev_table_def
        del: levenshtein.simps)
  have h4: "take 2 (py ''--halp'') = py ''--''" "drop 2 (py ''--halp'') \<noteq> []"
    "list_all (is_word ascii_lib) (drop 2 (py ''--halp''))"
    "exact_lookup option_mappings (drop 2 (py ''--halp'')) = Some (py ''help'')"
    by (simp_all add: option_mappings_def py_def is_word_def)
  note t = option_correction [of ascii_lib option_mappings
      "[py ''-v'', py ''--zzzzzz'', py ''--halp'']"]
  from t have "length out = 3" by (simp add: out_def)
  then obtain b1 b2 b3 where o: "out = [b1, b2, b3]"
    by (auto simp: numeral_3_eq_3 length_Suc_conv)
  from t have g: "list_all (\<lambda>(a, b).
       (take 2 a \<noteq> py ''--'' \<or> drop 2 a = [] \<or> \<not> list_all (is_word ascii_lib) (drop 2 a)
          \<longrightarrow> b = a) \<and>
       (exact_lookup option_mappings (drop 2 a) = None \<and>
        find_fuzzy_match True (map fst option_mappings) (drop 2 a) = None \<longrightarrow> b = a) \<and>
       (\<forall>c. take 2 a = py ''--'' \<and> drop 2 a \<noteq> [] \<and> list_all (is_word ascii_lib) (drop 2 a) \<and>
            exact_lookup option_mappings (drop 2 a) = Some c \<longrightarrow> b = py ''--'' @ c) \<and>
       (\<forall>c. take 2 a = py ''--'' \<and> drop 2 a \<noteq> [] \<and> list_all (is_word ascii_lib) (drop 2 a) \<and>
            exact_lookup option_mappings (drop 2 a) = None \<and>
            find_fuzzy_match True (map fst option_mappings) (drop 2 a) = Some c
            \<longrightarrow> b = py ''--'' @ c))
     (zip [py ''-v'', py ''--zzzzzz'', py ''--halp''] out)"
    unfolding out_def by blast
  from g h1 have "b1 = py ''-v''" unfolding o by simp
  moreover from g h2 h3 have "b2 = py ''--zzzzzz''" unfolding o by simp
  moreover from g h4 have "b3 = py ''--'' @ py ''help''" unfolding o by simp
  ultimately have "out = [py ''-v'', py ''--zzzzzz'', py ''--'' @ py ''help'']"
    by (simp add: o)
  with h1 h2 h3 h4 show ?thesis
    unfolding out_def [symmetric] by (simp add: py_def)
qed

end
